theory Spec2Isabelle
  imports Complex_Main "HOL-Library.Multiset"
begin

section \<open>Data model of the game client\<close>

text \<open>
  The repository is the browser client of the quiz game (React components and hooks).
  Objects received as JSON are records; a property that may be missing, \<open>null\<close> or
  \<open>undefined\<close> is an \<open>option\<close>. A team object and a leaderboard entry have the
  same shape in the client (\<open>leaderboard || teams\<close> uses them interchangeably), so
  both are the record \<open>team\<close>; every other property an object may carry lives in the
  record's extension slot.
\<close>

record team =
  team_id :: int
  team_name :: "string option"
  score :: "int option"
  position :: "int option"

text \<open>The idiom \<open>team.score || 0\<close>: a missing score counts as 0.\<close>

definition score_or_0 :: "'a team_scheme \<Rightarrow> int" where
  "score_or_0 t = (case score t of None \<Rightarrow> 0 | Some s \<Rightarrow> s)"

text \<open>
  A value a JSON property may hold where the client does arithmetic on it: a number, a
  string, \<open>null\<close>, or nothing (\<open>undefined\<close>); \<open>NaN\<close> arises from arithmetic on
  \<open>undefined\<close>. \<open>plus_1\<close> is JavaScript's \<open>v + 1\<close>: addition on a number,
  concatenation of \<open>"1"\<close> to a string, 1 for \<open>null\<close>, \<open>NaN\<close> otherwise.
\<close>

datatype js_value = Number int | String string | Null | Undefined | NaN

fun plus_1 :: "js_value \<Rightarrow> js_value" where
  "plus_1 (Number n) = Number (n + 1)"
| "plus_1 (String t) = String (t @ ''1'')"
| "plus_1 Null = Number 1"
| "plus_1 Undefined = NaN"
| "plus_1 NaN = NaN"

record answer =
  answer_id :: int
  submitted_answer :: string
  auto_graded :: bool
  auto_is_correct :: bool
  auto_points :: js_value

section \<open>useWebSocket: the leaderboard\_update case of handleMessage\<close>

text \<open>
  \<open>setLeaderboard(data.leaderboard)\<close>, then, when the list is present and not empty,
  \<open>setTeams(prevTeams => prevTeams.map(team => ...))\<close>: a team whose id is found in
  the list (\<open>Array.find\<close>: the first entry with that id) gets that entry's score and
  position, every other team is returned as it is.
\<close>

definition update_team :: "'a team_scheme list \<Rightarrow> 'b team_scheme \<Rightarrow> 'b team_scheme" where
  "update_team lb team =
     (case List.find (\<lambda>l. team_id l = team_id team) lb of
        Some updatedTeam \<Rightarrow> team\<lparr>score := score updatedTeam, position := position updatedTeam\<rparr>
      | None \<Rightarrow> team)"

definition leaderboard_update_teams ::
  "'a team_scheme list option \<Rightarrow> 'b team_scheme list \<Rightarrow> 'b team_scheme list" where
  "leaderboard_update_teams data_leaderboard prevTeams =
     (case data_leaderboard of
        None \<Rightarrow> prevTeams
      | Some lb \<Rightarrow> if length lb > 0 then map (update_team lb) prevTeams else prevTeams)"

section \<open>GamePage: handleAnswerSubmittedDetails\<close>

text \<open>
  The facilitator's list of answers awaiting grading (\<open>submittedAnswers\<close>, initially
  \<open>[]\<close>). An \<open>answer_submitted_details\<close> event appends the answer unless an entry
  with the same \<open>answer_id\<close> is already there; a client whose role is not
  \<open>facilitator\<close> does not touch the list.
\<close>

definition handleAnswerSubmittedDetails :: "string \<Rightarrow> 'a answer_scheme list \<Rightarrow> 'a answer_scheme \<Rightarrow> 'a answer_scheme list" where
  "handleAnswerSubmittedDetails role prev answerData =
     (if role = ''facilitator''
      then (if list_ex (\<lambda>a. answer_id a = answer_id answerData) prev then prev
            else prev @ [answerData])
      else prev)"

text \<open>A run of events, applied in arrival order to the initial empty list.\<close>

definition submittedAnswers_after :: "string \<Rightarrow> 'a answer_scheme list \<Rightarrow> 'a answer_scheme list" where
  "submittedAnswers_after role events = foldl (handleAnswerSubmittedDetails role) [] events"

section \<open>Leaderboard: sorting and ranks\<close>

text \<open>
  \<open>[...teams].sort((a, b) => (b.score || 0) - (a.score || 0))\<close>: a stable sort by
  score, highest first. \<open>sort_key\<close> is a stable insertion sort; sorting by the negated
  score in ascending order is sorting by score in descending order.
\<close>

definition sortedTeams :: "'a team_scheme list \<Rightarrow> 'a team_scheme list" where
  "sortedTeams teams = sort_key (\<lambda>t. - score_or_0 t) teams"

text \<open>\<open>sortedTeams[i]?.score || 0\<close>: an index out of range reads as score 0.\<close>

definition score_at :: "'a team_scheme list \<Rightarrow> nat \<Rightarrow> int" where
  "score_at ts i = (if i < length ts then score_or_0 (ts ! i) else 0)"

text \<open>
  The loop of \<open>getTeamRank\<close>: \<open>for (let i = 0; i < index; i++)\<close>, returning
  \<open>i + 1\<close> at the first \<open>i\<close> whose score is \<open>currentScore\<close>; \<open>None\<close> when the
  loop ends without returning.
\<close>

function first_same_score :: "'a team_scheme list \<Rightarrow> int \<Rightarrow> nat \<Rightarrow> nat \<Rightarrow> nat option" where
  "first_same_score ts currentScore index i =
     (if i < index
      then (if score_at ts i = currentScore then Some (i + 1)
            else first_same_score ts currentScore index (i + 1))
      else None)"
  by pat_completeness auto
termination
  by (relation "measure (\<lambda>(ts, c, index, i). index - i)") auto

declare first_same_score.simps [simp del]

definition getTeamRank :: "'a team_scheme list \<Rightarrow> nat \<Rightarrow> nat" where
  "getTeamRank ts index =
     (if index = 0 then 1
      else let currentScore = score_at ts index;
               prevScore = score_at ts (index - 1)
           in if currentScore = prevScore
              then (case first_same_score ts currentScore index 0 of
                      Some r \<Rightarrow> r
                    | None \<Rightarrow> index + 1)
              else index + 1)"

text \<open>Vocabulary for the properties: a list in descending score order, and the number
  of teams of a list whose score is strictly higher than \<open>c\<close>.\<close>

definition desc :: "'a team_scheme list \<Rightarrow> bool" where
  "desc ts = sorted_wrt (\<lambda>a b. score_or_0 b \<le> score_or_0 a) ts"

definition higher :: "'a team_scheme list \<Rightarrow> int \<Rightarrow> nat" where
  "higher ts c = length (filter (\<lambda>t. c < score_or_0 t) ts)"

section \<open>GamePage: handleFinishGame\<close>

text \<open>
  \<open>const teamsToSort = leaderboard || teams\<close>: the leaderboard state when it is set
  (an array, even an empty one, is truthy), the team list otherwise. The winners are the
  entries of the sorted list whose score equals that of its first entry
  (\<open>sortedTeams[0]?.score || 0\<close>); both lists are the data of the \<open>game_ended\<close>
  message.
\<close>

record 'a game_ended =
  winners :: "'a team_scheme list"
  leaderboard :: "'a team_scheme list"

text \<open>The leaderboard state as the game context creates it: \<open>useState([])\<close>.\<close>

definition leaderboard_initial :: "'a team_scheme list option" where
  "leaderboard_initial = Some []"

definition teamsToSort :: "'a team_scheme list option \<Rightarrow> 'a team_scheme list \<Rightarrow> 'a team_scheme list" where
  "teamsToSort leaderboard_state teams = (case leaderboard_state of Some l \<Rightarrow> l | None \<Rightarrow> teams)"

definition handleFinishGame :: "'a team_scheme list option \<Rightarrow> 'a team_scheme list \<Rightarrow> 'a game_ended" where
  "handleFinishGame leaderboard_state teams =
     (let sorted_teams = sortedTeams (teamsToSort leaderboard_state teams);
          highestScore = score_at sorted_teams 0;
          gameWinners = filter (\<lambda>team. score_or_0 team = highestScore) sorted_teams
      in \<lparr>winners = gameWinners, leaderboard = sorted_teams\<rparr>)"

section \<open>GamePage: the dice-roll countdown\<close>

text \<open>
  The state the countdown touches: \<open>waitingForDice\<close>, \<open>currentTurnTeam\<close>,
  \<open>diceTimer\<close> (\<open>useState(null)\<close>), whether an interval is scheduled
  (\<open>diceTimerRef.current\<close> is set) and \<open>showDiceSkipModal\<close>. A turn starts
  waiting for its roll in \<open>handleQuestionReadyForDice\<close>, which starts the countdown.
  \<open>startDiceTimer\<close> sets the counter to 30 and schedules the interval (clearing an
  earlier one); the interval's callback runs once per second (\<open>setInterval(..., 1000)\<close>)
  and is \<open>dice_tick\<close>; a cleared interval does not run any more.
\<close>

record dice_state =
  waitingForDice :: bool
  currentTurnTeam :: "string option"
  diceTimer :: "int option"
  diceTimerRef :: bool
  showDiceSkipModal :: bool

definition startDiceTimer :: "dice_state \<Rightarrow> dice_state" where
  "startDiceTimer s = s\<lparr>diceTimer := Some 30, diceTimerRef := True\<rparr>"

definition handleQuestionReadyForDice :: "string \<Rightarrow> dice_state \<Rightarrow> dice_state" where
  "handleQuestionReadyForDice teamName s =
     startDiceTimer (s\<lparr>waitingForDice := True, currentTurnTeam := Some teamName\<rparr>)"

text \<open>\<open>prev <= 1\<close> and \<open>prev - 1\<close> on a counter that may be \<open>null\<close> (which
  JavaScript reads as 0 in both).\<close>

definition le_1 :: "int option \<Rightarrow> bool" where
  "le_1 prev = (case prev of None \<Rightarrow> True | Some n \<Rightarrow> n \<le> 1)"

definition minus_1 :: "int option \<Rightarrow> int" where
  "minus_1 prev = (case prev of None \<Rightarrow> - 1 | Some n \<Rightarrow> n - 1)"

definition dice_tick :: "string \<Rightarrow> dice_state \<Rightarrow> dice_state" where
  "dice_tick role s =
     (if \<not> diceTimerRef s then s
      else if le_1 (diceTimer s)
           then s\<lparr>diceTimerRef := False,
                  showDiceSkipModal := (if role = ''facilitator'' then True else showDiceSkipModal s),
                  diceTimer := Some 0\<rparr>
           else s\<lparr>diceTimer := Some (minus_1 (diceTimer s))\<rparr>)"

text \<open>\<open>clearDiceTimer\<close>, called by \<open>handleDiceRolled\<close> when a roll arrives.\<close>

definition clearDiceTimer :: "dice_state \<Rightarrow> dice_state" where
  "clearDiceTimer s = s\<lparr>diceTimerRef := False, diceTimer := None, showDiceSkipModal := False\<rparr>"

text \<open>The skip prompt is rendered under \<open>showDiceSkipModal && role === 'facilitator'\<close>.\<close>

definition dice_skip_modal_shown :: "string \<Rightarrow> dice_state \<Rightarrow> bool" where
  "dice_skip_modal_shown role s = (showDiceSkipModal s \<and> role = ''facilitator'')"

section \<open>GamePage: handleRollDice\<close>

text \<open>
  \<open>const finalRoll = Math.floor(Math.random() * 6) + 1\<close>. \<open>Math.random()\<close> returns
  a double \<open>d\<close> with \<open>0 \<le> d < 1\<close>; every such double is \<open>m / 2 ^ e\<close> for a
  significand \<open>m < 2 ^ 53\<close>, and the client's random draw is given by the pair
  \<open>(m, e)\<close>. The product \<open>d * 6\<close> is a double again: the exact product
  \<open>6 * m / 2 ^ e\<close> rounded to 53 significant bits, to nearest, ties to even
  (IEEE 754). \<open>bits n\<close> is the length of \<open>n\<close> in binary, so \<open>bits n - 53\<close> low
  bits of the exact numerator are rounded away. \<open>Math.floor\<close> and the addition of 1
  are exact on these values.
\<close>

fun bits :: "nat \<Rightarrow> nat" where
  "bits n = (if n = 0 then 0 else Suc (bits (n div 2)))"

declare bits.simps [simp del]

definition round_even :: "nat \<Rightarrow> nat \<Rightarrow> nat" where
  "round_even n s =
     (let q = n div 2 ^ s; r = n mod 2 ^ s
      in if 2 * r < 2 ^ s then q
         else if 2 * r > 2 ^ s then q + 1
         else if even q then q else q + 1)"

definition times_6 :: "nat \<Rightarrow> nat \<Rightarrow> rat" where
  "times_6 m e =
     (let n = m * 6; s = bits n - 53
      in of_nat (round_even n s * 2 ^ s) / 2 ^ e)"

definition finalRoll :: "nat \<Rightarrow> nat \<Rightarrow> int" where
  "finalRoll m e = \<lfloor>times_6 m e\<rfloor> + 1"

text \<open>\<open>const difficultyRange = finalRoll <= 3 ? 'Easy/Medium' : 'Hard/Insane'\<close>\<close>

definition difficultyRange :: "int \<Rightarrow> string" where
  "difficultyRange r = (if r \<le> 3 then ''Easy/Medium'' else ''Hard/Insane'')"

text \<open>
  The dice state of the page, and the data of the \<open>dice_rolled\<close> message
  (\<open>team_id\<close>, \<open>team_name\<close>, \<open>roll\<close>, \<open>difficulty_range\<close>).
  \<open>handleRollDice_start\<close> is the synchronous part of \<open>handleRollDice\<close>;
  \<open>handleRollDice_final\<close> is its 2-second timeout callback, which draws the final
  value, shows it and passes the message to \<open>sendMessage\<close>. The values shown every
  100 ms while the dice animates are overwritten by the final one and are left out.
\<close>

record dice_view =
  diceRolling :: bool
  diceAnimating :: bool
  diceResult :: "int option"
  showDiceResult :: bool

record dice_rolled =
  msg_team_id :: "int option"
  msg_team_name :: string
  roll :: int
  difficulty_range :: string

definition handleRollDice_start :: "dice_view \<Rightarrow> dice_view" where
  "handleRollDice_start v =
     v\<lparr>diceRolling := True, diceAnimating := True, diceResult := None, showDiceResult := False\<rparr>"

definition handleRollDice_final ::
  "int option \<Rightarrow> string \<Rightarrow> nat \<Rightarrow> nat \<Rightarrow> dice_view \<Rightarrow> dice_view \<times> dice_rolled" where
  "handleRollDice_final teamId teamName m e v =
     (let r = finalRoll m e
      in (v\<lparr>diceAnimating := False, diceResult := Some r, showDiceResult := True\<rparr>,
          \<lparr>msg_team_id = teamId, msg_team_name = teamName, roll = r,
           difficulty_range = difficultyRange r\<rparr>))"

section \<open>GamePage: grading buttons\<close>

text \<open>
  The points of a difficulty, as every manual grading button and the points badge of
  \<open>QuestionDisplay\<close> compute them:
  \<open>difficulty === 'Easy' || difficulty === 'Medium' ? 2 : 3\<close>. The difficulty is the
  string the question object carries.
\<close>

record question =
  difficulty :: string

definition difficulty_points :: "string \<Rightarrow> int" where
  "difficulty_points d = (if d = ''Easy'' \<or> d = ''Medium'' then 2 else 3)"

definition points_badge :: "'a question_scheme \<Rightarrow> string" where
  "points_badge q = (if difficulty q = ''Easy'' \<or> difficulty q = ''Medium'' then ''2'' else ''3'')"

text \<open>
  \<open>handleGradeAnswer(answerId, isCorrect, points)\<close> passes
  \<open>{answer_id, is_correct, points_awarded}\<close> to \<open>gameAPI.gradeAnswer\<close>; the record is
  that request body.
\<close>

record grade_request =
  req_answer_id :: int
  is_correct :: bool
  points_awarded :: js_value

definition handleGradeAnswer :: "int \<Rightarrow> bool \<Rightarrow> js_value \<Rightarrow> grade_request" where
  "handleGradeAnswer answerId isCorrect points =
     \<lparr>req_answer_id = answerId, is_correct = isCorrect, points_awarded = points\<rparr>"

text \<open>
  The three buttons of an answer card in the grading popup, in the order they are
  rendered, each as the request its click sends. The first branch is an answer that the
  server auto-graded as correct: its buttons send the \<open>auto_points\<close> that came with the
  answer. The second is an answer auto-graded as incorrect, the third an answer that
  was not auto-graded.
\<close>

definition grading_buttons :: "'a question_scheme \<Rightarrow> 'b answer_scheme \<Rightarrow> grade_request list" where
  "grading_buttons currentQuestion answer =
     (let pts = difficulty_points (difficulty currentQuestion)
      in if auto_graded answer \<and> auto_is_correct answer
         then [handleGradeAnswer (answer_id answer) True (auto_points answer),
               handleGradeAnswer (answer_id answer) True (plus_1 (auto_points answer)),
               handleGradeAnswer (answer_id answer) False (Number 0)]
         else if auto_graded answer \<and> \<not> auto_is_correct answer
         then [handleGradeAnswer (answer_id answer) False (Number 0),
               handleGradeAnswer (answer_id answer) True (Number pts),
               handleGradeAnswer (answer_id answer) True (Number (pts + 1))]
         else [handleGradeAnswer (answer_id answer) True (Number pts),
               handleGradeAnswer (answer_id answer) True (Number (pts + 1)),
               handleGradeAnswer (answer_id answer) False (Number 0)])"

text \<open>
  Modelled from the spec: the server's Scoring Engine, which computes the
  \<open>auto_points\<close> of an auto-graded answer and is not part of the client. The spec
  gives it as \<open>points(difficulty) = 2 if difficulty \<in> {Easy, Medium} else 3\<close>.
  \<open>auto_points_from_engine\<close> says that an answer auto-graded as correct carries that
  amount for the current question.
\<close>

definition scoring_engine_points :: "string \<Rightarrow> int" where
  "scoring_engine_points d = (if d \<in> {''Easy'', ''Medium''} then 2 else 3)"

definition auto_points_from_engine :: "'a question_scheme \<Rightarrow> 'b answer_scheme \<Rightarrow> bool" where
  "auto_points_from_engine q a =
     (if auto_graded a \<and> auto_is_correct a
      then auto_points a = Number (scoring_engine_points (difficulty q))
      else True)"

section \<open>GamePage: handleStartGame\<close>

text \<open>
  \<open>handleStartGame\<close> reads \<open>teams.length\<close> and \<open>gameSession.num_teams\<close>. With
  fewer teams than configured it shows an error toast and returns; otherwise it awaits
  \<open>gameAPI.startGame(sessionId)\<close> and shows a toast for the server's answer. The
  server is not part of the client: its answer is the parameter \<open>response\<close>
  (\<open>Rejected detail\<close> carries \<open>error.response?.data?.detail\<close>). The result lists what
  the handler does, in order; it sets no state of the page. Reading \<open>num_teams\<close> of a
  session that is still \<open>null\<close> throws.
\<close>

record game_session =
  num_teams :: int

datatype api_result = Resolved | Rejected "string option"

datatype start_effect =
    TypeError
  | Toast_waiting int
  | Api_startGame
  | Toast_started
  | Toast_failed string

definition handleStartGame ::
  "'a team_scheme list \<Rightarrow> 'b game_session_scheme option \<Rightarrow> api_result \<Rightarrow> start_effect list" where
  "handleStartGame teams gameSession response =
     (case gameSession of
        None \<Rightarrow> [TypeError]
      | Some g \<Rightarrow>
          if int (length teams) < num_teams g
          then [Toast_waiting (num_teams g - int (length teams))]
          else Api_startGame #
               (case response of
                  Resolved \<Rightarrow> [Toast_started]
                | Rejected detail \<Rightarrow>
                    [Toast_failed (case detail of
                                     None \<Rightarrow> ''Failed to start game''
                                   | Some d \<Rightarrow> if d = [] then ''Failed to start game'' else d)]))"

text \<open>The Start button: \<open>disabled={teams.length < (gameSession?.num_teams || 0)}\<close>.\<close>

definition start_button_disabled :: "'a team_scheme list \<Rightarrow> 'b game_session_scheme option \<Rightarrow> bool" where
  "start_button_disabled teams gameSession =
     (int (length teams) < (case gameSession of None \<Rightarrow> 0 | Some g \<Rightarrow> num_teams g))"

text \<open>
  The game status of the client (\<open>useState('waiting')\<close> in the game context) and the
  page's \<open>waitingToStart\<close>. Of the cases of \<open>handleMessage\<close>, \<open>game_started\<close>
  sets the status to \<open>in_progress\<close> and \<open>game_ended\<close> sets it to \<open>completed\<close>;
  no other case touches it. The page's effect on the status leaves the waiting room once
  the status is \<open>in_progress\<close>. \<open>on_message\<close> is one message handled and rendered.
\<close>

record client_status =
  gameStatus :: string
  waitingToStart :: bool

definition handleMessage_gameStatus :: "string \<Rightarrow> client_status \<Rightarrow> client_status" where
  "handleMessage_gameStatus type c =
     (if type = ''game_started'' then c\<lparr>gameStatus := ''in_progress''\<rparr>
      else if type = ''game_ended'' then c\<lparr>gameStatus := ''completed''\<rparr>
      else c)"

definition gameStatus_effect :: "client_status \<Rightarrow> client_status" where
  "gameStatus_effect c =
     (if gameStatus c = ''in_progress'' then c\<lparr>waitingToStart := False\<rparr> else c)"

definition on_message :: "client_status \<Rightarrow> string \<Rightarrow> client_status" where
  "on_message c type = gameStatus_effect (handleMessage_gameStatus type c)"

text \<open>
  Modelled from the spec: the server's side of joining and starting, which is not part
  of the client. \<open>join\<close> "rejects once team count == configured max", so the teams
  of a lobby never outnumber the configured count (\<open>lobby_within_limit\<close>); and
  \<open>start()\<close>, when the server accepts it, "emits \<open>game_started\<close>" to the
  clients, and emits nothing when it rejects (\<open>server_start_events\<close>).
\<close>

definition lobby_within_limit :: "'a team_scheme list \<Rightarrow> 'b game_session_scheme \<Rightarrow> bool" where
  "lobby_within_limit teams g = (int (length teams) \<le> num_teams g)"

definition server_start_events :: "api_result \<Rightarrow> string list" where
  "server_start_events response = (case response of Resolved \<Rightarrow> [''game_started''] | Rejected detail \<Rightarrow> [])"

text \<open>
  The start-game action end to end: what \<open>handleStartGame\<close> does, the events the
  server emits if the request was sent, and the client's status after handling them.
\<close>

record start_outcome =
  start_effects :: "start_effect list"
  emitted_events :: "string list"
  status_after :: client_status

definition start_game_action ::
  "'a team_scheme list \<Rightarrow> 'b game_session_scheme \<Rightarrow> api_result \<Rightarrow> client_status \<Rightarrow> start_outcome" where
  "start_game_action teams g response c =
     (let es = handleStartGame teams (Some g) response;
          evs = (if Api_startGame \<in> set es then server_start_events response else [])
      in \<lparr>start_effects = es, emitted_events = evs, status_after = foldl on_message c evs\<rparr>)"

section \<open>Timer: the answer countdown\<close>

text \<open>
  The \<open>Timer\<close> component as \<open>GamePage\<close> mounts it:
  \<open>stopped={answerSubmitted}\<close>, \<open>onTimeUp={handleTimeUp}\<close>. The state is the
  component's \<open>timeLeft\<close>, whether its effect's interval is scheduled, the
  \<open>stopped\<close> prop as of the Timer's last render, the page's \<open>answerSubmitted\<close> and
  \<open>timeExpired\<close>, and a counter of the calls of \<open>onTimeUp\<close>.
\<close>

record timer_state =
  timeLeft :: int
  interval :: bool
  stopped :: bool
  answerSubmitted :: bool
  timeExpired :: bool
  fired :: nat

definition handleTimeUp :: "timer_state \<Rightarrow> timer_state" where
  "handleTimeUp s = s\<lparr>answerSubmitted := True, timeExpired := True\<rparr>"

definition onTimeUp :: "timer_state \<Rightarrow> timer_state" where
  "onTimeUp s = handleTimeUp (s\<lparr>fired := Suc (fired s)\<rparr>)"

text \<open>The page renders again and hands its \<open>answerSubmitted\<close> to the Timer.\<close>

definition render_parent :: "timer_state \<Rightarrow> timer_state" where
  "render_parent s = s\<lparr>stopped := answerSubmitted s\<rparr>"

text \<open>
  The Timer's effect (dependencies \<open>timeLeft\<close>, \<open>onTimeUp\<close>, \<open>stopped\<close>), run
  after the cleanup of its previous run has cleared the interval: nothing when stopped;
  a call of \<open>onTimeUp\<close> when \<open>timeLeft <= 0\<close>; a new interval otherwise.
\<close>

definition timer_effect :: "timer_state \<Rightarrow> timer_state" where
  "timer_effect s =
     (let c = s\<lparr>interval := False\<rparr>
      in if stopped c then c
         else if timeLeft c \<le> 0 then onTimeUp c
         else c\<lparr>interval := True\<rparr>)"

text \<open>When the page's state differs from what the Timer was rendered with, the page
  renders and the effect runs again.\<close>

definition settle :: "timer_state \<Rightarrow> timer_state" where
  "settle s = (if stopped s \<noteq> answerSubmitted s then timer_effect (render_parent s) else s)"

text \<open>
  The function the interval's callback passes to \<open>setTimeLeft\<close>: at \<open>prev <= 1\<close> it
  clears the interval, calls \<open>onTimeUp\<close> and returns 0; otherwise it returns
  \<open>prev - 1\<close>.
\<close>

definition updater :: "timer_state \<Rightarrow> timer_state" where
  "updater s =
     (if timeLeft s \<le> 1 then (onTimeUp (s\<lparr>interval := False\<rparr>))\<lparr>timeLeft := 0\<rparr>
      else s\<lparr>timeLeft := timeLeft s - 1\<rparr>)"

text \<open>
  One run of the interval's callback, a second after the effect scheduled it. React
  runs the updater either at once, inside the interval's callback, or while it renders
  the Timer. In the first case the page update that \<open>handleTimeUp\<close> requests is
  rendered together with the Timer's new \<open>timeLeft\<close> (\<open>same_render\<close>); in the
  second it is requested while the Timer is being rendered and reaches the Timer in a
  later render, after the Timer's effect has run with the new \<open>timeLeft\<close> and the
  old \<open>stopped\<close>. The effect runs only when one of its dependencies changed.
\<close>

definition timer_tick :: "bool \<Rightarrow> timer_state \<Rightarrow> timer_state" where
  "timer_tick same_render s =
     (if \<not> interval s then s
      else let s1 = updater s;
               r = (if same_render then render_parent s1 else s1)
           in settle (if timeLeft r \<noteq> timeLeft s \<or> stopped r \<noteq> stopped s
                      then timer_effect r else r))"

text \<open>Mounting the Timer with a duration and the page's current \<open>answerSubmitted\<close>,
  and the page stopping it (an answer was submitted).\<close>

definition timer_mount :: "int \<Rightarrow> bool \<Rightarrow> timer_state" where
  "timer_mount duration stopped0 =
     settle (timer_effect \<lparr>timeLeft = duration, interval = False, stopped = stopped0,
                          answerSubmitted = stopped0, timeExpired = False, fired = 0\<rparr>)"

definition timer_stop :: "timer_state \<Rightarrow> timer_state" where
  "timer_stop s = settle (s\<lparr>answerSubmitted := True\<rparr>)"

section \<open>GamePage: handleSkipQuestion\<close>

text \<open>
  The facilitator's "Skip Question (0 pts)" button, offered when the time expired with
  no answer submitted. \<open>handleSkipQuestion\<close> clears the current question, the answer
  flags of the page, the pending answers and the dice timer, and shows a toast; it calls
  no API. The result is the new page state and the grading requests sent: none.
\<close>

record question_page =
  currentQuestion :: "question option"
  submittedAnswers :: "answer list"
  timer :: timer_state
  dice :: dice_state

definition handleSkipQuestion :: "question_page \<Rightarrow> question_page \<times> grade_request list" where
  "handleSkipQuestion p =
     (p\<lparr>currentQuestion := None,
        timer := (timer p)\<lparr>answerSubmitted := False, timeExpired := False\<rparr>,
        submittedAnswers := [],
        dice := clearDiceTimer (dice p)\<rparr>,
      [])"

section \<open>Example data\<close>

text \<open>Three teams after the first graded answer (Blue's score is still missing), and a
  final standing in which two teams tie at the top.\<close>

definition example_teams :: "team list" where
  "example_teams =
     [\<lparr>team_id = 1, team_name = Some ''Red'', score = Some 2, position = Some 1\<rparr>,
      \<lparr>team_id = 2, team_name = Some ''Blue'', score = None, position = Some 0\<rparr>,
      \<lparr>team_id = 3, team_name = Some ''Green'', score = Some 0, position = Some 0\<rparr>]"

definition tie_teams :: "team list" where
  "tie_teams =
     [\<lparr>team_id = 1, team_name = Some ''Red'', score = Some 10, position = Some 5\<rparr>,
      \<lparr>team_id = 2, team_name = Some ''Blue'', score = Some 7, position = Some 3\<rparr>,
      \<lparr>team_id = 3, team_name = Some ''Green'', score = Some 10, position = Some 5\<rparr>]"

section \<open>Properties\<close>

subsection \<open>leaderboard\_update is framed to score and position of listed teams\<close>

lemma find_none_iff_ids:
  "List.find (\<lambda>l. team_id l = i) lb = None \<longleftrightarrow> i \<notin> team_id ` set lb"
  by (auto simp: find_None_iff)

lemma update_team_unlisted:
  "team_id t \<notin> team_id ` set lb \<Longrightarrow> update_team lb t = t"
  using find_none_iff_ids [of "team_id t" lb] by (simp add: update_team_def)

lemma update_team_frame:
  "team_id (update_team lb t) = team_id t \<and> team_name (update_team lb t) = team_name t
   \<and> team.more (update_team lb t) = team.more t"
  by (simp add: update_team_def split: option.splits)

lemma update_team_listed:
  assumes "team_id t \<in> team_id ` set lb"
  shows "\<exists>u \<in> set lb. team_id u = team_id t
           \<and> update_team lb t = t\<lparr>score := score u, position := position u\<rparr>"
proof -
  from assms obtain u where u: "List.find (\<lambda>l. team_id l = team_id t) lb = Some u"
    using find_none_iff_ids [of "team_id t" lb] by (cases "List.find (\<lambda>l. team_id l = team_id t) lb") auto
  then have "u \<in> set lb" "team_id u = team_id t"
    by (auto simp: find_Some_iff)
  with u show ?thesis by (auto simp: update_team_def)
qed

text \<open>
  Claim C9. Applying a \<open>leaderboard_update\<close> keeps the team list's length and order;
  at every index the id, the name and every further property of the team are unchanged;
  a team whose id is not in the update's list is unchanged altogether; a team whose id
  is in the list differs from the old one at most in score and position, which are those
  of a list entry with its id.
\<close>

theorem leaderboard_update_frame:
  fixes prevTeams :: "'b team_scheme list" and data_leaderboard :: "'a team_scheme list option"
  defines "new \<equiv> leaderboard_update_teams data_leaderboard prevTeams"
  shows "length new = length prevTeams
    \<and> (\<forall>i < length prevTeams.
          team_id (new ! i) = team_id (prevTeams ! i)
        \<and> team_name (new ! i) = team_name (prevTeams ! i)
        \<and> team.more (new ! i) = team.more (prevTeams ! i)
        \<and> (case data_leaderboard of
              None \<Rightarrow> new ! i = prevTeams ! i
            | Some lb \<Rightarrow>
                (team_id (prevTeams ! i) \<notin> team_id ` set lb \<longrightarrow> new ! i = prevTeams ! i)
              \<and> (team_id (prevTeams ! i) \<in> team_id ` set lb \<longrightarrow>
                   (\<exists>u \<in> set lb. team_id u = team_id (prevTeams ! i)
                      \<and> new ! i = (prevTeams ! i)\<lparr>score := score u, position := position u\<rparr>))))"
proof (cases data_leaderboard)
  case None
  then show ?thesis by (simp add: new_def leaderboard_update_teams_def)
next
  case (Some lb)
  show ?thesis
  proof (cases "length lb > 0")
    case True
    then have new: "new = map (update_team lb) prevTeams"
      by (simp add: new_def leaderboard_update_teams_def Some)
    show ?thesis
      unfolding new Some
      using update_team_frame update_team_unlisted update_team_listed
      by (simp add: update_team_frame) blast
  next
    case False
    then have "lb = []" by simp
    then show ?thesis by (simp add: new_def leaderboard_update_teams_def Some)
  qed
qed

theorem leaderboard_update_frame_witness:
  "leaderboard_update_teams
      (Some [\<lparr>team_id = 2, team_name = None, score = Some 5, position = Some 3\<rparr>])
      [\<lparr>team_id = 1, team_name = Some ''Red'', score = Some 0, position = Some 0\<rparr>,
       \<lparr>team_id = 2, team_name = Some ''Blue'', score = Some 2, position = Some 1\<rparr>]
   = [\<lparr>team_id = 1, team_name = Some ''Red'', score = Some 0, position = Some 0\<rparr>,
      \<lparr>team_id = 2, team_name = Some ''Blue'', score = Some 5, position = Some 3\<rparr>]"
  using leaderboard_update_frame
    [of "Some [\<lparr>team_id = 2, team_name = None, score = Some 5, position = Some 3\<rparr>]"
        "[\<lparr>team_id = 1, team_name = Some ''Red'', score = Some 0, position = Some 0\<rparr>,
          \<lparr>team_id = 2, team_name = Some ''Blue'', score = Some 2, position = Some 1\<rparr>]"]
  by (simp add: leaderboard_update_teams_def update_team_def)

subsection \<open>The pending-answers list has no duplicate answer\_id\<close>

lemma handleAnswerSubmittedDetails_distinct:
  "distinct (map answer_id prev) \<Longrightarrow>
   distinct (map answer_id (handleAnswerSubmittedDetails role prev a))"
  by (auto simp: handleAnswerSubmittedDetails_def list_ex_iff)

lemma foldl_handle_distinct:
  "distinct (map answer_id prev) \<Longrightarrow>
   distinct (map answer_id (foldl (handleAnswerSubmittedDetails role) prev events))"
  by (induction events arbitrary: prev) (simp_all add: handleAnswerSubmittedDetails_distinct)

lemma foldl_handle_player:
  "role \<noteq> ''facilitator'' \<Longrightarrow> foldl (handleAnswerSubmittedDetails role) prev events = prev"
  by (induction events arbitrary: prev) (simp_all add: handleAnswerSubmittedDetails_def)

text \<open>
  Claim C10. After any run of \<open>answer_submitted_details\<close> events, starting from the
  initial empty list, no two entries of the pending-answers list have the same
  \<open>answer_id\<close>; and when the client's role is not \<open>facilitator\<close> the list is empty
  after any run of events.
\<close>

theorem submittedAnswers_no_duplicates:
  "distinct (map answer_id (submittedAnswers_after role events))
   \<and> (role \<noteq> ''facilitator'' \<longrightarrow> submittedAnswers_after role events = [])"
  unfolding submittedAnswers_after_def
  using foldl_handle_distinct [of "[]" role events] foldl_handle_player [of role "[]" events]
  by simp

theorem submittedAnswers_no_duplicates_witness:
  "''player'' \<noteq> ''facilitator''
   \<and> submittedAnswers_after ''player''
       [\<lparr>answer_id = 7, submitted_answer = ''B'', auto_graded = True,
         auto_is_correct = True, auto_points = Number 2\<rparr>,
        \<lparr>answer_id = 7, submitted_answer = ''B'', auto_graded = True,
         auto_is_correct = True, auto_points = Number 2\<rparr>] = []
   \<and> map answer_id (submittedAnswers_after ''facilitator''
       [\<lparr>answer_id = 7, submitted_answer = ''B'', auto_graded = True,
         auto_is_correct = True, auto_points = Number 2\<rparr>,
        \<lparr>answer_id = 7, submitted_answer = ''C'', auto_graded = True,
         auto_is_correct = False, auto_points = Number 0\<rparr>,
        \<lparr>answer_id = 8, submitted_answer = ''A'', auto_graded = False,
         auto_is_correct = False, auto_points = Number 0\<rparr>]) = [7, 8]"
  using submittedAnswers_no_duplicates [of "''player''"
       "[\<lparr>answer_id = 7, submitted_answer = ''B'', auto_graded = True,
         auto_is_correct = True, auto_points = Number 2\<rparr>,
        \<lparr>answer_id = 7, submitted_answer = ''B'', auto_graded = True,
         auto_is_correct = True, auto_points = Number 2\<rparr>]"]
  by (simp add: submittedAnswers_after_def handleAnswerSubmittedDetails_def)

subsection \<open>Leaderboard ranks\<close>

lemma sortedTeams_desc: "desc (sortedTeams teams)"
proof -
  have "sorted (map (\<lambda>t. - score_or_0 t) (sortedTeams teams))"
    by (simp add: sortedTeams_def)
  then show ?thesis
    by (simp add: sorted_wrt_map desc_def)
qed

lemma sortedTeams_mset: "mset (sortedTeams teams) = mset teams"
  by (simp add: sortedTeams_def)

lemma desc_nth: "desc ts \<Longrightarrow> i \<le> j \<Longrightarrow> j < length ts \<Longrightarrow> score_or_0 (ts ! j) \<le> score_or_0 (ts ! i)"
  unfolding desc_def
  by (cases "i = j") (auto simp: sorted_wrt_iff_nth_less)

lemma desc_rev: "desc ts \<Longrightarrow> sorted (rev (map score_or_0 ts))"
  unfolding desc_def
  by (simp add: sorted_wrt_rev rev_map[symmetric] sorted_wrt_map)

lemma higher_takeWhile: "desc ts \<Longrightarrow> higher ts c = length (takeWhile (\<lambda>t. c < score_or_0 t) ts)"
  unfolding higher_def
  using filter_equals_takeWhile_sorted_rev [OF desc_rev, of ts c] by simp

lemma higher_le_index:
  assumes "desc ts" "k < length ts"
  shows "higher ts (score_or_0 (ts ! k)) \<le> k"
proof (rule ccontr)
  let ?P = "\<lambda>t. score_or_0 (ts ! k) < score_or_0 t"
  assume "\<not> higher ts (score_or_0 (ts ! k)) \<le> k"
  then have lt: "k < length (takeWhile ?P ts)"
    using higher_takeWhile [OF assms(1)] by simp
  then have "takeWhile ?P ts ! k = ts ! k" by (rule takeWhile_nth)
  moreover have "takeWhile ?P ts ! k \<in> set (takeWhile ?P ts)" using lt by simp
  ultimately have "?P (ts ! k)" using set_takeWhileD by metis
  then show False by simp
qed

lemma higher_before:
  assumes "desc ts" "j < higher ts c"
  shows "c < score_or_0 (ts ! j)"
proof -
  let ?P = "\<lambda>t. c < score_or_0 t"
  have lt: "j < length (takeWhile ?P ts)"
    using higher_takeWhile [OF assms(1)] assms(2) by simp
  then have "takeWhile ?P ts ! j = ts ! j" by (rule takeWhile_nth)
  moreover have "takeWhile ?P ts ! j \<in> set (takeWhile ?P ts)" using lt by simp
  ultimately show ?thesis using set_takeWhileD by metis
qed

lemma higher_at:
  assumes "desc ts" "k < length ts"
  shows "score_or_0 (ts ! higher ts (score_or_0 (ts ! k))) = score_or_0 (ts ! k)"
proof -
  let ?c = "score_or_0 (ts ! k)"
  let ?P = "\<lambda>t. ?c < score_or_0 t"
  have le: "higher ts ?c \<le> k" by (rule higher_le_index [OF assms])
  then have "length (takeWhile ?P ts) < length ts"
    using higher_takeWhile [OF assms(1), of ?c] assms(2) by simp
  then have "\<not> ?P (ts ! length (takeWhile ?P ts))" by (rule nth_length_takeWhile)
  then have "score_or_0 (ts ! higher ts ?c) \<le> ?c"
    using higher_takeWhile [OF assms(1), of ?c] by simp
  moreover have "?c \<le> score_or_0 (ts ! higher ts ?c)"
    using desc_nth [OF assms(1) le assms(2)] .
  ultimately show ?thesis by simp
qed

lemma first_same_score_finds:
  assumes "\<And>j. j < f \<Longrightarrow> score_at ts j \<noteq> c" "score_at ts f = c" "f < k" "i \<le> f"
  shows "first_same_score ts c k i = Some (f + 1)"
  using assms(4)
proof (induction "f - i" arbitrary: i)
  case 0
  then have "i = f" by simp
  then show ?case using assms(2,3) by (subst first_same_score.simps) simp
next
  case (Suc n)
  then have "i < f" by simp
  then have "score_at ts i \<noteq> c" "i < k" using assms(1,3) by auto
  moreover have "first_same_score ts c k (i + 1) = Some (f + 1)"
    using Suc by simp
  ultimately show ?case by (subst first_same_score.simps) simp
qed

lemma getTeamRank_higher:
  assumes d: "desc ts" and k: "k < length ts"
  shows "getTeamRank ts k = 1 + higher ts (score_or_0 (ts ! k))"
proof -
  let ?c = "score_or_0 (ts ! k)"
  let ?f = "higher ts ?c"
  have le: "?f \<le> k" by (rule higher_le_index [OF d k])
  have at: "score_at ts ?f = ?c" using higher_at [OF d k] le k by (simp add: score_at_def)
  have before: "\<And>j. j < ?f \<Longrightarrow> score_at ts j \<noteq> ?c"
    using higher_before [OF d] le k by (fastforce simp: score_at_def)
  have cur: "score_at ts k = ?c" using k by (simp add: score_at_def)
  show ?thesis
  proof (cases "k = 0")
    case True
    then show ?thesis using le by (simp add: getTeamRank_def)
  next
    case False
    show ?thesis
    proof (cases "score_at ts k = score_at ts (k - 1)")
      case True
      have "?f < k"
      proof (rule ccontr)
        assume "\<not> ?f < k"
        then have "?f = k" using le by simp
        then have "score_at ts (k - 1) \<noteq> ?c" using before [of "k - 1"] False by simp
        then show False using True cur by simp
      qed
      then have "first_same_score ts ?c k 0 = Some (?f + 1)"
        using first_same_score_finds [of ?f ts ?c k 0] before at by simp
      then show ?thesis using False True cur by (simp add: getTeamRank_def)
    next
      case neq: False
      have "?f = k"
      proof (rule ccontr)
        assume "?f \<noteq> k"
        then have lt: "?f \<le> k - 1" using le by simp
        have "score_or_0 (ts ! (k - 1)) \<le> score_or_0 (ts ! ?f)"
          using desc_nth [OF d lt] k by simp
        moreover have "?c \<le> score_or_0 (ts ! (k - 1))"
          using desc_nth [OF d, of "k - 1" k] k by simp
        ultimately have "score_or_0 (ts ! (k - 1)) = ?c" using higher_at [OF d k] by simp
        moreover have "k - 1 < length ts" using k by simp
        ultimately show False using neq cur by (simp add: score_at_def)
      qed
      then show ?thesis using False neq by (simp add: getTeamRank_def Let_def)
    qed
  qed
qed

lemma higher_mset: "mset ts = mset us \<Longrightarrow> higher ts c = higher us c"
proof -
  assume "mset ts = mset us"
  then have "mset (filter (\<lambda>t. c < score_or_0 t) ts) = mset (filter (\<lambda>t. c < score_or_0 t) us)"
    by simp
  then show ?thesis unfolding higher_def by (metis size_mset)
qed

lemma higher_mono: "c \<le> c' \<Longrightarrow> higher ts c' \<le> higher ts c"
  unfolding higher_def
  by (induction ts) auto

text \<open>
  Claim C4. The leaderboard is the team list sorted by score in descending order (a
  permutation of it), and the rank shown at each position is 1 plus the number of teams
  with a strictly higher score; for positions \<open>i < j\<close> of the sorted list the rank at
  \<open>i\<close> is at most the rank at \<open>j\<close>, and the two ranks are equal exactly when the two
  scores are equal.
\<close>

theorem getTeamRank_spec:
  fixes teams :: "'a team_scheme list"
  defines "s \<equiv> sortedTeams teams"
  shows "mset s = mset teams \<and> desc s
    \<and> (\<forall>k < length teams.
          getTeamRank s k = 1 + length (filter (\<lambda>t. score_or_0 (s ! k) < score_or_0 t) teams))
    \<and> (\<forall>i j. i < j \<and> j < length teams \<longrightarrow>
          getTeamRank s i \<le> getTeamRank s j
        \<and> (getTeamRank s i = getTeamRank s j \<longleftrightarrow> score_or_0 (s ! i) = score_or_0 (s ! j)))"
proof -
  have d: "desc s" and m: "mset s = mset teams"
    by (simp_all add: s_def sortedTeams_desc sortedTeams_mset)
  have len: "length s = length teams" using m by (metis size_mset)
  have rank: "getTeamRank s k = 1 + higher s (score_or_0 (s ! k))" if "k < length teams" for k
    using getTeamRank_higher [OF d] that len by simp
  have A: "getTeamRank s k = 1 + length (filter (\<lambda>t. score_or_0 (s ! k) < score_or_0 t) teams)"
    if "k < length teams" for k
    using rank [OF that] higher_mset [OF m] by (simp add: higher_def)
  have B: "getTeamRank s i \<le> getTeamRank s j
        \<and> (getTeamRank s i = getTeamRank s j \<longleftrightarrow> score_or_0 (s ! i) = score_or_0 (s ! j))"
    if "i < j" "j < length teams" for i j
  proof -
    have ij: "score_or_0 (s ! j) \<le> score_or_0 (s ! i)"
      using desc_nth [OF d, of i j] that len by simp
    have i: "i < length teams" using that by simp
    have le: "getTeamRank s i \<le> getTeamRank s j"
      using rank [OF i] rank [OF that(2)] higher_mono [OF ij] by simp
    have "getTeamRank s i \<noteq> getTeamRank s j" if ne: "score_or_0 (s ! i) \<noteq> score_or_0 (s ! j)"
    proof -
      have "higher s (score_or_0 (s ! i)) \<le> i" using higher_le_index [OF d] i len by simp
      moreover have "i < higher s (score_or_0 (s ! j))"
      proof (rule ccontr)
        assume "\<not> i < higher s (score_or_0 (s ! j))"
        then have h: "higher s (score_or_0 (s ! j)) \<le> i" by simp
        have "score_or_0 (s ! i) \<le> score_or_0 (s ! higher s (score_or_0 (s ! j)))"
          using desc_nth [OF d h] i len by simp
        then show False using higher_at [OF d, of j] \<open>j < length teams\<close> len ij ne by simp
      qed
      ultimately show ?thesis using rank [OF i] rank [OF \<open>j < length teams\<close>] by simp
    qed
    moreover have "getTeamRank s i = getTeamRank s j" if "score_or_0 (s ! i) = score_or_0 (s ! j)"
      using rank [OF i] rank [OF \<open>j < length teams\<close>] that by simp
    ultimately show ?thesis using le by blast
  qed
  from d m A B show ?thesis by blast
qed

theorem getTeamRank_spec_witness:
  "(1::nat) < 2 \<and> 2 < length example_teams
   \<and> map (getTeamRank (sortedTeams example_teams)) [0, 1, 2] = [1, 2, 2]
   \<and> getTeamRank (sortedTeams example_teams) 1 \<le> getTeamRank (sortedTeams example_teams) 2
   \<and> score_or_0 (sortedTeams example_teams ! 1) = score_or_0 (sortedTeams example_teams ! 2)"
  using getTeamRank_spec [of example_teams]
  by (simp add: sortedTeams_def example_teams_def score_or_0_def getTeamRank_def score_at_def
        first_same_score.simps)

subsection \<open>Winners at the end of the game\<close>

lemma top_score_is_max:
  assumes "teams \<noteq> []"
  shows "score_at (sortedTeams teams) 0 = Max (score_or_0 ` set teams)"
proof -
  let ?s = "sortedTeams teams"
  have m: "mset ?s = mset teams" by (rule sortedTeams_mset)
  then have set: "set ?s = set teams" by (metis set_mset_mset)
  have len: "length ?s = length teams" using m by (metis size_mset)
  then have pos: "0 < length ?s" using assms by simp
  have top: "score_at ?s 0 = score_or_0 (?s ! 0)" using pos by (simp add: score_at_def)
  have "Max (score_or_0 ` set teams) = score_or_0 (?s ! 0)"
  proof (rule Max_eqI)
    show "finite (score_or_0 ` set teams)" by simp
    show "score_or_0 (?s ! 0) \<in> score_or_0 ` set teams"
      using pos set nth_mem [of 0 ?s] by blast
    fix y assume "y \<in> score_or_0 ` set teams"
    then obtain t where "t \<in> set ?s" "y = score_or_0 t" using set by auto
    then obtain j where "j < length ?s" "?s ! j = t" by (auto simp: in_set_conv_nth)
    then show "y \<le> score_or_0 (?s ! 0)"
      using desc_nth [OF sortedTeams_desc, of 0 j teams] \<open>y = score_or_0 t\<close> by simp
  qed
  with top show ?thesis by simp
qed

text \<open>
  When the list that \<open>handleFinishGame\<close> reads is not empty, the winners are exactly
  its teams whose score equals the maximum score, each as often as it occurs; with a
  leaderboard state that is \<open>null\<close> the list read is the team list.
\<close>

lemma winners_of_list_read:
  fixes teams :: "'a team_scheme list"
  assumes "teamsToSort lb teams \<noteq> []"
  shows "mset (winners (handleFinishGame lb teams))
           = filter_mset (\<lambda>t. score_or_0 t = Max (score_or_0 ` set (teamsToSort lb teams)))
               (mset (teamsToSort lb teams))
       \<and> set (winners (handleFinishGame lb teams))
           = {t \<in> set (teamsToSort lb teams).
                score_or_0 t = Max (score_or_0 ` set (teamsToSort lb teams))}
       \<and> winners (handleFinishGame lb teams) \<noteq> []"
proof -
  let ?ts = "teamsToSort lb teams"
  let ?mx = "Max (score_or_0 ` set ?ts)"
  have w: "winners (handleFinishGame lb teams) = filter (\<lambda>t. score_or_0 t = ?mx) (sortedTeams ?ts)"
    using top_score_is_max [OF assms]
    by (simp add: handleFinishGame_def Let_def)
  have 1: "mset (winners (handleFinishGame lb teams)) = filter_mset (\<lambda>t. score_or_0 t = ?mx) (mset ?ts)"
    unfolding w by (simp add: sortedTeams_mset)
  then have 2: "set (winners (handleFinishGame lb teams)) = {t \<in> set ?ts. score_or_0 t = ?mx}"
    by (metis set_mset_mset set_mset_filter)
  have "?mx \<in> score_or_0 ` set ?ts" using assms by (intro Max_in) auto
  then have "winners (handleFinishGame lb teams) \<noteq> []" using 2 by auto
  with 1 2 show ?thesis by blast
qed

lemma winners_with_null_leaderboard:
  "winners (handleFinishGame None tie_teams)
     = [\<lparr>team_id = 1, team_name = Some ''Red'', score = Some 10, position = Some 5\<rparr>,
        \<lparr>team_id = 3, team_name = Some ''Green'', score = Some 10, position = Some 5\<rparr>]"
  by (simp add: handleFinishGame_def teamsToSort_def tie_teams_def sortedTeams_def
        score_or_0_def score_at_def)

text \<open>
  Claim C5 says that for every non-empty team list the winners of \<open>game_ended\<close> are
  exactly the teams whose score is the maximum over all teams. The list
  \<open>handleFinishGame\<close> reads is \<open>leaderboard || teams\<close>, and the leaderboard state
  starts as \<open>[]\<close>, which is truthy: until a \<open>leaderboard_update\<close> has arrived the
  team list is not read. With the initial leaderboard and the three teams of
  \<open>tie_teams\<close> (Red and Green tied at 10) the winners list and the final leaderboard
  of the message are empty.
\<close>

theorem handleFinishGame_initial_leaderboard_no_winners:
  "winners (handleFinishGame leaderboard_initial tie_teams) = []
   \<and> leaderboard (handleFinishGame leaderboard_initial tie_teams) = []
   \<and> length tie_teams = 3"
  by (simp add: handleFinishGame_def teamsToSort_def leaderboard_initial_def sortedTeams_def
        tie_teams_def)

subsection \<open>The dice-roll countdown\<close>

lemma dice_ticks_running:
  "k \<le> 29 \<Longrightarrow> (dice_tick role ^^ k) (startDiceTimer s)
     = s\<lparr>diceTimer := Some (30 - int k), diceTimerRef := True\<rparr>"
proof (induction k)
  case 0
  then show ?case by (simp add: startDiceTimer_def)
next
  case (Suc k)
  then show ?case by (simp add: dice_tick_def le_1_def minus_1_def)
qed

lemma dice_ticks_expired:
  "(dice_tick role ^^ 30) (startDiceTimer s)
     = s\<lparr>diceTimer := Some 0, diceTimerRef := False,
          showDiceSkipModal := (if role = ''facilitator'' then True else showDiceSkipModal s)\<rparr>"
proof -
  have "(30::nat) = Suc 29" by simp
  then have "(dice_tick role ^^ 30) (startDiceTimer s)
      = dice_tick role ((dice_tick role ^^ 29) (startDiceTimer s))"
    by (simp only: funpow.simps o_apply)
  then show ?thesis
    by (simp add: dice_ticks_running dice_tick_def le_1_def)
qed

lemma dice_tick_stopped: "\<not> diceTimerRef s \<Longrightarrow> (dice_tick role ^^ k) s = s"
  by (induction k) (simp_all add: dice_tick_def)

lemma dice_ticks_after:
  assumes "30 \<le> k"
  shows "(dice_tick role ^^ k) (startDiceTimer s) = (dice_tick role ^^ 30) (startDiceTimer s)"
proof -
  from assms obtain m where k: "k = m + 30" by (metis le_add_diff_inverse2)
  show ?thesis unfolding k funpow_add o_apply
    by (rule dice_tick_stopped) (simp add: dice_ticks_expired)
qed

lemma dice_timer_from_start:
  "diceTimer (startDiceTimer s) = Some 30
   \<and> (\<forall>k \<le> 30. diceTimer ((dice_tick role ^^ k) (startDiceTimer s)) = Some (30 - int k))
   \<and> (\<forall>k < 30. showDiceSkipModal ((dice_tick role ^^ k) (startDiceTimer s)) = showDiceSkipModal s)
   \<and> (\<forall>k \<ge> 30. dice_skip_modal_shown role ((dice_tick role ^^ k) (startDiceTimer s))
                   \<longleftrightarrow> role = ''facilitator'')
   \<and> (\<forall>k < 30. \<forall>j. \<not> dice_skip_modal_shown role
          ((dice_tick role ^^ j) (clearDiceTimer ((dice_tick role ^^ k) (startDiceTimer s)))))"
proof -
  have run: "diceTimer ((dice_tick role ^^ k) (startDiceTimer s)) = Some (30 - int k)" if "k \<le> 30" for k
  proof (cases "k = 30")
    case True
    then show ?thesis by (simp add: dice_ticks_expired)
  next
    case False
    with that have "k \<le> 29" by simp
    then show ?thesis by (simp add: dice_ticks_running)
  qed
  have flag: "showDiceSkipModal ((dice_tick role ^^ k) (startDiceTimer s)) = showDiceSkipModal s"
    if "k < 30" for k
  proof -
    from that have "k \<le> 29" by simp
    then show ?thesis by (simp add: dice_ticks_running)
  qed
  have late: "dice_skip_modal_shown role ((dice_tick role ^^ k) (startDiceTimer s))
                \<longleftrightarrow> role = ''facilitator''" if "30 \<le> k" for k
    using dice_ticks_after [OF that, of role s]
    by (simp add: dice_ticks_expired dice_skip_modal_shown_def)
  have rolled: "\<not> dice_skip_modal_shown role
          ((dice_tick role ^^ j) (clearDiceTimer ((dice_tick role ^^ k) (startDiceTimer s))))" for j k
  proof -
    have "\<not> diceTimerRef (clearDiceTimer t)" for t :: dice_state
      by (simp add: clearDiceTimer_def)
    then have "(dice_tick role ^^ j) (clearDiceTimer t) = clearDiceTimer t" for t :: dice_state
      by (rule dice_tick_stopped)
    then show ?thesis by (simp add: dice_skip_modal_shown_def clearDiceTimer_def)
  qed
  have "diceTimer (startDiceTimer s) = Some 30" by (simp add: startDiceTimer_def)
  with run flag late rolled show ?thesis by blast
qed

text \<open>
  Claim C7. When a turn starts waiting for its roll (\<open>handleQuestionReadyForDice\<close>),
  the countdown shows 30, and after \<open>k\<close> seconds (\<open>k \<le> 30\<close>) with no roll it shows
  \<open>30 - k\<close>; the skip flag is untouched before the counter reaches 0; once it has
  reached 0 the skip prompt is shown exactly when the client's role is
  \<open>facilitator\<close>, so never to a player; and when a roll arrives before that
  (\<open>clearDiceTimer\<close>), the prompt is shown to nobody.
\<close>

theorem dice_timer_countdown:
  fixes s :: dice_state and teamName role :: string
  defines "waiting \<equiv> handleQuestionReadyForDice teamName s"
  shows "waitingForDice waiting \<and> diceTimer waiting = Some 30
   \<and> (\<forall>k \<le> 30. diceTimer ((dice_tick role ^^ k) waiting) = Some (30 - int k))
   \<and> (\<forall>k < 30. showDiceSkipModal ((dice_tick role ^^ k) waiting) = showDiceSkipModal s)
   \<and> (\<forall>k \<ge> 30. dice_skip_modal_shown role ((dice_tick role ^^ k) waiting)
                   \<longleftrightarrow> role = ''facilitator'')
   \<and> (role \<noteq> ''facilitator'' \<longrightarrow>
        (\<forall>k. \<not> dice_skip_modal_shown role ((dice_tick role ^^ k) waiting)))
   \<and> (\<forall>k < 30. \<forall>j. \<not> dice_skip_modal_shown role
          ((dice_tick role ^^ j) (clearDiceTimer ((dice_tick role ^^ k) waiting))))"
proof -
  let ?s = "s\<lparr>waitingForDice := True, currentTurnTeam := Some teamName\<rparr>"
  have w: "waiting = startDiceTimer ?s"
    by (simp add: waiting_def handleQuestionReadyForDice_def)
  have "waitingForDice waiting" by (simp add: w startDiceTimer_def)
  moreover have "\<not> dice_skip_modal_shown role t" if "role \<noteq> ''facilitator''" for t
    using that by (simp add: dice_skip_modal_shown_def)
  moreover have "showDiceSkipModal ?s = showDiceSkipModal s" by simp
  ultimately show ?thesis
    unfolding w using dice_timer_from_start [of ?s role] by simp
qed

theorem dice_timer_countdown_witness:
  "(30::nat) \<le> 30 \<and> (12::nat) < 30 \<and> ''player'' \<noteq> ''facilitator''
   \<and> diceTimer ((dice_tick ''player'' ^^ 12)
        (handleQuestionReadyForDice ''Red''
          \<lparr>waitingForDice = False, currentTurnTeam = None, diceTimer = None,
           diceTimerRef = False, showDiceSkipModal = False\<rparr>)) = Some 18
   \<and> diceTimer ((dice_tick ''player'' ^^ 30)
        (handleQuestionReadyForDice ''Red''
          \<lparr>waitingForDice = False, currentTurnTeam = None, diceTimer = None,
           diceTimerRef = False, showDiceSkipModal = False\<rparr>)) = Some 0
   \<and> \<not> dice_skip_modal_shown ''player'' ((dice_tick ''player'' ^^ 30)
        (handleQuestionReadyForDice ''Red''
          \<lparr>waitingForDice = False, currentTurnTeam = None, diceTimer = None,
           diceTimerRef = False, showDiceSkipModal = False\<rparr>))"
  using dice_timer_countdown
    [of "''Red''" "\<lparr>waitingForDice = False, currentTurnTeam = None, diceTimer = None,
           diceTimerRef = False, showDiceSkipModal = False\<rparr>" "''player''"]
  by simp

subsection \<open>The dice roll\<close>

lemma bits_le: "n < 2 ^ k \<Longrightarrow> bits n \<le> k"
proof (induction k arbitrary: n)
  case 0
  then show ?case by (simp add: bits.simps)
next
  case (Suc k)
  then have "n div 2 < 2 ^ k" by simp
  then have "bits (n div 2) \<le> k" by (rule Suc.IH)
  then show ?case by (subst bits.simps) simp
qed

lemma round_even_upper: "2 * (round_even n s * 2 ^ s) \<le> 2 * n + 2 ^ s"
proof -
  let ?q = "n div 2 ^ s" and ?r = "n mod 2 ^ s"
  have n: "?q * 2 ^ s + ?r = n" by (rule div_mult_mod_eq)
  have up: "2 * ((?q + 1) * 2 ^ s) \<le> 2 * n + 2 ^ s" if "2 ^ s \<le> 2 * ?r"
  proof -
    have "2 * ((?q + 1) * 2 ^ s) = 2 * (?q * 2 ^ s) + 2 * 2 ^ s" by (simp add: algebra_simps)
    also have "\<dots> \<le> 2 * (?q * 2 ^ s) + 2 * ?r + 2 ^ s" using that by simp
    also have "\<dots> = 2 * n + 2 ^ s" using n by (metis distrib_left)
    finally show ?thesis .
  qed
  have down: "2 * (?q * 2 ^ s) \<le> 2 * n + 2 ^ s"
    using n by (metis add_leD1 le_add1 mult_le_mono2 trans_le_add1)
  show ?thesis
    unfolding round_even_def Let_def using up down by (auto simp del: mult_Suc_right)
qed

lemma times_6_bounds:
  assumes "m < 2 ^ 53" "m < 2 ^ e"
  shows "0 \<le> times_6 m e \<and> times_6 m e < 6"
proof -
  let ?n = "m * 6"
  let ?s = "bits ?n - 53"
  let ?v = "round_even ?n ?s * 2 ^ ?s"
  have "?n < 2 ^ 56" using assms(1) by simp
  then have "bits ?n \<le> 56" by (rule bits_le)
  then have s: "?s \<le> 3" by simp
  then have "(2::nat) ^ ?s \<le> 2 ^ 3" by (intro power_increasing) simp_all
  then have "2 * ?v \<le> 2 * ?n + 8"
    using round_even_upper [of ?n ?s] by simp
  moreover have "m + 1 \<le> 2 ^ e" using assms(2) by simp
  then have "6 * (m + 1) \<le> 6 * 2 ^ e" by simp
  ultimately have "?v < 6 * 2 ^ e" by simp
  then have "(of_nat ?v :: rat) < of_nat (6 * 2 ^ e)" by (simp only: of_nat_less_iff)
  then have "(of_nat ?v :: rat) < 6 * 2 ^ e" by simp
  then have "(of_nat ?v :: rat) / 2 ^ e < 6" by (simp add: divide_less_eq)
  moreover have "0 \<le> (of_nat ?v :: rat) / 2 ^ e" by simp
  ultimately show ?thesis by (simp add: times_6_def Let_def)
qed

lemma finalRoll_range:
  assumes "m < 2 ^ 53" "m < 2 ^ e"
  shows "1 \<le> finalRoll m e \<and> finalRoll m e \<le> 6"
proof -
  from times_6_bounds [OF assms] have "0 \<le> \<lfloor>times_6 m e\<rfloor>" "\<lfloor>times_6 m e\<rfloor> < 6"
    by (simp_all add: floor_less_iff)
  then show ?thesis by (simp add: finalRoll_def)
qed



lemma bits_0: "bits 0 = 0" by (simp add: bits.simps)
lemma bits_pos: "0 < n \<Longrightarrow> bits n = Suc (bits (n div 2))" by (subst bits.simps) simp

lemma difficultyRange_bands:
  "1 \<le> r \<Longrightarrow> r \<le> 6 \<Longrightarrow>
     (difficultyRange r = ''Easy/Medium'' \<longleftrightarrow> r \<in> {1, 2, 3})
   \<and> (difficultyRange r = ''Hard/Insane'' \<longleftrightarrow> r \<in> {4, 5, 6})"
  by (auto simp: difficultyRange_def)

text \<open>
  Claim C2. For every random draw (a double \<open>m / 2 ^ e\<close> in \<open>[0, 1)\<close>, with
  significand \<open>m < 2 ^ 53\<close>), the value rolled by \<open>handleRollDice\<close> is an integer
  from 1 to 6, and the difficulty range sent with it is \<open>Easy/Medium\<close> exactly when
  the value is 1, 2 or 3 and \<open>Hard/Insane\<close> exactly when it is 4, 5 or 6.
\<close>

theorem dice_roll_range_and_band:
  assumes "m < 2 ^ 53" and "m < 2 ^ e"
  shows "roll (snd (handleRollDice_final teamId teamName m e v)) \<in> {1..6}
     \<and> (difficulty_range (snd (handleRollDice_final teamId teamName m e v)) = ''Easy/Medium''
          \<longleftrightarrow> roll (snd (handleRollDice_final teamId teamName m e v)) \<in> {1, 2, 3})
     \<and> (difficulty_range (snd (handleRollDice_final teamId teamName m e v)) = ''Hard/Insane''
          \<longleftrightarrow> roll (snd (handleRollDice_final teamId teamName m e v)) \<in> {4, 5, 6})"
proof -
  have r: "1 \<le> finalRoll m e" "finalRoll m e \<le> 6"
    using finalRoll_range [OF assms] by simp_all
  show ?thesis
    using r difficultyRange_bands [OF r]
    by (simp add: handleRollDice_final_def Let_def)
qed

text \<open>The largest double below 1, \<open>1 - 2 ^ -53\<close>: its product with 6 is rounded (down),
  and the roll is 6.\<close>

lemma bits_largest: "bits 54043195528445946 = 56"
  by (simp add: bits_0 bits_pos)

lemma finalRoll_largest: "finalRoll 9007199254740991 53 = 6"
  by (simp add: finalRoll_def times_6_def round_even_def Let_def bits_largest floor_eq_iff)

theorem dice_roll_range_and_band_witness:
  "(9007199254740991::nat) < 2 ^ 53
   \<and> roll (snd (handleRollDice_final (Some 1) ''Red'' 9007199254740991 53
        (handleRollDice_start
          \<lparr>diceRolling = False, diceAnimating = False, diceResult = None, showDiceResult = False\<rparr>))) = 6
   \<and> difficulty_range (snd (handleRollDice_final (Some 1) ''Red'' 9007199254740991 53
        (handleRollDice_start
          \<lparr>diceRolling = False, diceAnimating = False, diceResult = None, showDiceResult = False\<rparr>)))
       = ''Hard/Insane''"
  using dice_roll_range_and_band [of 9007199254740991 53 "Some 1" "''Red''"
        "handleRollDice_start
          \<lparr>diceRolling = False, diceAnimating = False, diceResult = None, showDiceResult = False\<rparr>"]
  by (simp add: handleRollDice_final_def Let_def finalRoll_largest difficultyRange_def)

lemma finalRoll_eighths:
  "finalRoll 0 3 = 1" "finalRoll 2 3 = 2" "finalRoll 3 3 = 3"
  "finalRoll 4 3 = 4" "finalRoll 6 3 = 5" "finalRoll 7 3 = 6"
  by code_simp+

text \<open>
  Claim C3 says that the value of a \<open>dice_rolled\<close> event is generated by the server
  and that the rolling client's randomness has no influence on it. In the client the
  value is drawn by the rolling client: two runs of \<open>handleRollDice\<close> that differ only
  in the client's random draw send different values.
\<close>

theorem dice_value_differs_by_client_random:
  "roll (snd (handleRollDice_final (Some 1) ''Red'' 0 3
        (handleRollDice_start
          \<lparr>diceRolling = False, diceAnimating = False, diceResult = None, showDiceResult = False\<rparr>))) = 1
   \<and> roll (snd (handleRollDice_final (Some 1) ''Red'' 7 3
        (handleRollDice_start
          \<lparr>diceRolling = False, diceAnimating = False, diceResult = None, showDiceResult = False\<rparr>))) = 6"
  by (simp add: handleRollDice_final_def Let_def finalRoll_eighths)

text \<open>
  Claim C3, amended. The \<open>roll\<close> of the \<open>dice_rolled\<close> message that the rolling
  client sends is the value it computed from its own random draw, the same value it
  shows on its dice; and the client's draw decides it: every value from 1 to 6 is sent
  for some draw.
\<close>

theorem dice_value_client_computed:
  "roll (snd (handleRollDice_final teamId teamName m e v)) = finalRoll m e
   \<and> diceResult (fst (handleRollDice_final teamId teamName m e v)) = Some (finalRoll m e)
   \<and> (\<forall>r \<in> {1..6}. \<exists>m' e'. m' < 2 ^ 53 \<and> m' < 2 ^ e'
          \<and> roll (snd (handleRollDice_final teamId teamName m' e' v)) = r)"
proof -
  have "\<exists>m' e'. m' < 2 ^ 53 \<and> m' < 2 ^ e' \<and> finalRoll m' e' = r" if "r \<in> {1..6}" for r
  proof -
    from that have "r = 1 \<or> r = 2 \<or> r = 3 \<or> r = 4 \<or> r = 5 \<or> r = 6" by auto
    then consider "r = 1" | "r = 2" | "r = 3" | "r = 4" | "r = 5" | "r = 6" by blast
    then show ?thesis
    proof cases
      case 1 then show ?thesis using finalRoll_eighths(1) by (intro exI [of _ 0] exI [of _ 3]) simp
    next
      case 2 then show ?thesis using finalRoll_eighths(2) by (intro exI [of _ 2] exI [of _ 3]) simp
    next
      case 3 then show ?thesis using finalRoll_eighths(3) by (intro exI [of _ 3] exI [of _ 3]) simp
    next
      case 4 then show ?thesis using finalRoll_eighths(4) by (intro exI [of _ 4] exI [of _ 3]) simp
    next
      case 5 then show ?thesis using finalRoll_eighths(5) by (intro exI [of _ 6] exI [of _ 3]) simp
    next
      case 6 then show ?thesis using finalRoll_eighths(6) by (intro exI [of _ 7] exI [of _ 3]) simp
    qed
  qed
  then show ?thesis by (simp add: handleRollDice_final_def Let_def)
qed

theorem dice_value_client_computed_witness:
  "(4::int) \<in> {1..6}
   \<and> (\<exists>m' e'. m' < 2 ^ 53 \<and> m' < 2 ^ e'
        \<and> roll (snd (handleRollDice_final (Some 1) ''Red'' m' e'
            (handleRollDice_start
          \<lparr>diceRolling = False, diceAnimating = False, diceResult = None, showDiceResult = False\<rparr>))) = 4)"
  using dice_value_client_computed [of "Some 1" "''Red''" 0 3
        "handleRollDice_start
          \<lparr>diceRolling = False, diceAnimating = False, diceResult = None, showDiceResult = False\<rparr>"]
  by simp

subsection \<open>Points sent by the grading buttons\<close>

lemma scoring_engine_points_client:
  "scoring_engine_points d = difficulty_points d"
  by (simp add: scoring_engine_points_def difficulty_points_def)

text \<open>
  Claim C1. For every answer card, given that an answer auto-graded as correct carries
  the Scoring Engine's amount as its \<open>auto_points\<close>: the three grading buttons send a
  correct verdict with \<open>p\<close> points, a correct verdict with exactly \<open>p + 1\<close> points
  (the facilitator's bonus) and an incorrect verdict with 0 points, all for the card's
  answer, where \<open>p\<close> is 2 when the question's difficulty is Easy or Medium and 3 when
  it is Hard or Insane; the points badge shows the same \<open>p\<close>; and skipping an
  unanswered question sends no grading request, so it awards nothing.
\<close>

theorem grading_buttons_points:
  assumes "auto_points_from_engine q a"
  shows "mset (map (\<lambda>r. (is_correct r, points_awarded r)) (grading_buttons q a))
       = {#(True, Number (difficulty_points (difficulty q))),
           (True, Number (difficulty_points (difficulty q) + 1)),
           (False, Number 0)#}
   \<and> (\<forall>r \<in> set (grading_buttons q a). req_answer_id r = answer_id a)
   \<and> (difficulty q \<in> {''Easy'', ''Medium''} \<longrightarrow> difficulty_points (difficulty q) = 2)
   \<and> (difficulty q \<in> {''Hard'', ''Insane''} \<longrightarrow> difficulty_points (difficulty q) = 3)
   \<and> (points_badge q = ''2'' \<longleftrightarrow> difficulty_points (difficulty q) = 2)
   \<and> (points_badge q = ''3'' \<longleftrightarrow> difficulty_points (difficulty q) = 3)
   \<and> snd (handleSkipQuestion page) = []"
proof -
  have auto: "auto_points a = Number (difficulty_points (difficulty q))"
    if "auto_graded a" "auto_is_correct a"
    using assms that by (simp add: auto_points_from_engine_def scoring_engine_points_client)
  have buttons: "mset (map (\<lambda>r. (is_correct r, points_awarded r)) (grading_buttons q a))
       = {#(True, Number (difficulty_points (difficulty q))),
           (True, Number (difficulty_points (difficulty q) + 1)),
           (False, Number 0)#}"
  proof (cases "auto_graded a \<and> auto_is_correct a")
    case True
    then show ?thesis using auto
      by (simp add: grading_buttons_def handleGradeAnswer_def Let_def)
  next
    case False
    then show ?thesis
      by (auto simp: grading_buttons_def handleGradeAnswer_def Let_def)
  qed
  have ids: "\<forall>r \<in> set (grading_buttons q a). req_answer_id r = answer_id a"
    by (simp add: grading_buttons_def handleGradeAnswer_def Let_def)
  have pts: "(difficulty q \<in> {''Easy'', ''Medium''} \<longrightarrow> difficulty_points (difficulty q) = 2)
      \<and> (difficulty q \<in> {''Hard'', ''Insane''} \<longrightarrow> difficulty_points (difficulty q) = 3)
      \<and> (points_badge q = ''2'' \<longleftrightarrow> difficulty_points (difficulty q) = 2)
      \<and> (points_badge q = ''3'' \<longleftrightarrow> difficulty_points (difficulty q) = 3)"
    by (auto simp: difficulty_points_def points_badge_def)
  have skip: "snd (handleSkipQuestion page) = []"
    by (simp add: handleSkipQuestion_def)
  from buttons ids pts skip show ?thesis by blast
qed

theorem grading_buttons_points_witness:
  "auto_points_from_engine \<lparr>difficulty = ''Easy''\<rparr>
     \<lparr>answer_id = 7, submitted_answer = ''B'', auto_graded = True, auto_is_correct = True,
      auto_points = Number 2\<rparr>
   \<and> difficulty \<lparr>difficulty = ''Easy''\<rparr> \<in> {''Easy'', ''Medium''}
   \<and> map (\<lambda>r. (is_correct r, points_awarded r))
        (grading_buttons \<lparr>difficulty = ''Easy''\<rparr>
          \<lparr>answer_id = 7, submitted_answer = ''B'', auto_graded = True, auto_is_correct = True,
           auto_points = Number 2\<rparr>)
       = [(True, Number 2), (True, Number 3), (False, Number 0)]
   \<and> map (\<lambda>r. (is_correct r, points_awarded r))
        (grading_buttons \<lparr>difficulty = ''Hard''\<rparr>
          \<lparr>answer_id = 8, submitted_answer = ''a heap'', auto_graded = False,
           auto_is_correct = False, auto_points = Undefined\<rparr>)
       = [(True, Number 3), (True, Number 4), (False, Number 0)]"
  using grading_buttons_points [of "\<lparr>difficulty = ''Easy''\<rparr>"
     "\<lparr>answer_id = 7, submitted_answer = ''B'', auto_graded = True, auto_is_correct = True,
       auto_points = Number 2\<rparr>"]
  by (simp add: grading_buttons_def handleGradeAnswer_def difficulty_points_def
        auto_points_from_engine_def scoring_engine_points_def)

subsection \<open>Starting the game\<close>

text \<open>
  Claim C6. In a lobby that holds no more teams than configured, the start-game action
  succeeds only when the number of joined teams equals the configured count (and it does
  succeed then when the server accepts); with any other number it is rejected by the
  client: a waiting toast, no request, no event and no change of the client's status
  (the Start button is disabled exactly then). Whenever the action does not succeed the
  client's status is unchanged. When it succeeds, \<open>game_started\<close> is emitted and the
  client's game status is \<open>in_progress\<close>.
\<close>

theorem start_game_only_when_all_joined:
  fixes teams :: "'a team_scheme list" and g :: "'b game_session_scheme"
  assumes "lobby_within_limit teams g"
  shows "(Toast_started \<in> set (start_effects (start_game_action teams g response c))
            \<longrightarrow> int (length teams) = num_teams g)
   \<and> (int (length teams) = num_teams g \<and> response = Resolved
            \<longrightarrow> Toast_started \<in> set (start_effects (start_game_action teams g response c)))
   \<and> (int (length teams) \<noteq> num_teams g \<longrightarrow>
          start_effects (start_game_action teams g response c)
            = [Toast_waiting (num_teams g - int (length teams))])
   \<and> (start_button_disabled teams (Some g) \<longleftrightarrow> int (length teams) \<noteq> num_teams g)
   \<and> (Toast_started \<notin> set (start_effects (start_game_action teams g response c)) \<longrightarrow>
          emitted_events (start_game_action teams g response c) = []
        \<and> status_after (start_game_action teams g response c) = c)
   \<and> (Toast_started \<in> set (start_effects (start_game_action teams g response c)) \<longrightarrow>
          emitted_events (start_game_action teams g response c) = [''game_started'']
        \<and> gameStatus (status_after (start_game_action teams g response c)) = ''in_progress''
        \<and> \<not> waitingToStart (status_after (start_game_action teams g response c)))"
proof (cases "int (length teams) = num_teams g")
  case True
  show ?thesis
  proof (cases response)
    case Resolved
    with True show ?thesis
      by (simp add: start_game_action_def handleStartGame_def start_button_disabled_def
            server_start_events_def on_message_def handleMessage_gameStatus_def
            gameStatus_effect_def)
  next
    case (Rejected detail)
    with True show ?thesis
      by (simp add: start_game_action_def handleStartGame_def start_button_disabled_def
            server_start_events_def)
  qed
next
  case False
  with assms have "int (length teams) < num_teams g"
    by (simp add: lobby_within_limit_def)
  then show ?thesis
    by (simp add: start_game_action_def handleStartGame_def start_button_disabled_def)
qed

theorem start_game_only_when_all_joined_witness:
  "lobby_within_limit example_teams \<lparr>num_teams = 3\<rparr>
   \<and> int (length example_teams) = num_teams \<lparr>num_teams = 3\<rparr>
   \<and> start_game_action example_teams \<lparr>num_teams = 3\<rparr> Resolved
        \<lparr>gameStatus = ''waiting'', waitingToStart = True\<rparr>
       = \<lparr>start_effects = [Api_startGame, Toast_started], emitted_events = [''game_started''],
          status_after = \<lparr>gameStatus = ''in_progress'', waitingToStart = False\<rparr>\<rparr>
   \<and> lobby_within_limit (take 2 example_teams) \<lparr>num_teams = 3\<rparr>
   \<and> start_game_action (take 2 example_teams) \<lparr>num_teams = 3\<rparr> Resolved
        \<lparr>gameStatus = ''waiting'', waitingToStart = True\<rparr>
       = \<lparr>start_effects = [Toast_waiting 1], emitted_events = [],
          status_after = \<lparr>gameStatus = ''waiting'', waitingToStart = True\<rparr>\<rparr>"
  using start_game_only_when_all_joined [of example_teams "\<lparr>num_teams = 3\<rparr>" Resolved
          "\<lparr>gameStatus = ''waiting'', waitingToStart = True\<rparr>"]
  by (simp add: start_game_action_def handleStartGame_def lobby_within_limit_def
        example_teams_def server_start_events_def on_message_def handleMessage_gameStatus_def
        gameStatus_effect_def)

subsection \<open>The answer countdown fires onTimeUp\<close>

lemma timer_idle: "\<not> interval s \<Longrightarrow> (timer_tick b ^^ k) s = s"
  by (induction k) (simp_all add: timer_tick_def)

lemma timer_running:
  "0 < d \<Longrightarrow> k < nat d \<Longrightarrow> (timer_tick b ^^ k) (timer_mount d False)
     = \<lparr>timeLeft = d - int k, interval = True, stopped = False,
        answerSubmitted = False, timeExpired = False, fired = 0\<rparr>"
proof (induction k)
  case 0
  then show ?case by (simp add: timer_mount_def timer_effect_def settle_def)
next
  case (Suc k)
  then have "1 < d - int k" by linarith
  with Suc show ?case
    by (simp add: timer_tick_def updater_def timer_effect_def settle_def render_parent_def Let_def)
qed

lemma timer_expiring:
  assumes "0 < d"
  shows "(timer_tick b ^^ nat d) (timer_mount d False)
     = \<lparr>timeLeft = 0, interval = False, stopped = True,
        answerSubmitted = True, timeExpired = True, fired = (if b then 1 else 2)\<rparr>"
proof -
  from assms obtain k where k: "nat d = Suc k" by (cases "nat d") auto
  then have kd: "k < nat d" and one: "d - int k = 1" by linarith+
  have "(timer_tick b ^^ nat d) (timer_mount d False)
      = timer_tick b ((timer_tick b ^^ k) (timer_mount d False))"
    unfolding k by simp
  also have "\<dots> = timer_tick b \<lparr>timeLeft = 1, interval = True, stopped = False,
        answerSubmitted = False, timeExpired = False, fired = 0\<rparr>"
    using timer_running [OF assms kd, of b] one by simp
  also have "\<dots> = \<lparr>timeLeft = 0, interval = False, stopped = True,
        answerSubmitted = True, timeExpired = True, fired = (if b then 1 else 2)\<rparr>"
    by (simp add: timer_tick_def updater_def timer_effect_def settle_def render_parent_def
          onTimeUp_def handleTimeUp_def Let_def)
  finally show ?thesis .
qed

text \<open>The sibling path: when the stop reaches the Timer in the same render as
  \<open>timeLeft = 0\<close>, a 30-second countdown fires \<open>onTimeUp\<close> once.\<close>

lemma timer_fires_once_when_stop_arrives_in_same_render:
  "fired ((timer_tick True ^^ 30) (timer_mount 30 False)) = 1"
  using timer_expiring [of 30 True] by simp

text \<open>
  Claim C8 says that \<open>onTimeUp\<close> fires exactly once when the answer countdown reaches
  zero while the timer is not stopped, never twice. The updater calls it when the counter
  goes from 1 to 0, and the effect, which runs again because \<open>timeLeft\<close> changed, calls
  it once more when the Timer has not yet been rendered with \<open>stopped\<close> set: a
  30-second countdown with no answer, whose stop arrives in a later render, has fired
  \<open>onTimeUp\<close> twice after its 30th tick.
\<close>

theorem timer_fires_twice_when_stop_arrives_late:
  "fired ((timer_tick False ^^ 30) (timer_mount 30 False)) = 2"
  using timer_expiring [of 30 False] by simp

end
